theory Spec2Isabelle
  imports Main "HOL-Library.Char_ord" "HOL-Library.Sublist" "HOL-Library.AList"
begin

section \<open>Validated IPv4 fields: the descriptor of the notebook cell\<close>

text \<open>
  The notebook cell defines a descriptor class \<open>PropertyWithValidator\<close> with the hooks
  \<open>__set_name__\<close>, \<open>__get__\<close> and \<open>__set__\<close>, its subclass \<open>IPv4\<close> whose
  \<open>validate\<close> checks a value against a regular expression, and a record class
  \<open>Flow\<close> with two such fields. Python values, the exceptions, the log and the
  instance dictionary of a record are made explicit below.
\<close>

subsection \<open>Values, exceptions, log records\<close>

text \<open>
  A Python string is a list of characters; a character outside ASCII is the bytes of
  its UTF-8 encoding, none of which is a digit, a dot or a newline, so the pattern of
  \<open>validate\<close> treats it as Python does. The values a caller may hand to a field are
  strings and values of other types; integers, booleans and \<open>None\<close> stand for the
  latter.
\<close>

datatype pyval = PyStr string | PyInt int | PyBool bool | PyNone

text \<open>
  Reading an attribute can also give an object of another kind: the instance dictionary
  (which \<open>__dict__\<close> gives, with its entries in insertion order), the class of the
  record, or a method that the class inherits, named by its attribute.
\<close>

datatype pyobj = Val pyval | DictOf "(string \<times> pyval) list" | ClassObject | Method string

text \<open>
  The exceptions. \<open>ValidationException\<close> carries its message; \<open>AttributeError\<close> and
  \<open>TypeError\<close>, which attribute access raises, carry the name of the attribute.
\<close>

datatype error = ValidationException string | AttributeError string | TypeError string

text \<open>
  \<open>logging.info(msg, *args)\<close> hands the root logger (configured at level INFO) a
  record made of the message template and its arguments.
\<close>

datatype log_record = Info string "pyobj list"

subsection \<open>Rendering a value: \<open>"{}".format(value)\<close>\<close>

fun digit_chars :: "nat \<Rightarrow> string" where
  "digit_chars n =
     (if n < 10 then [char_of (48 + n)]
      else digit_chars (n div 10) @ [char_of (48 + n mod 10)])"

declare digit_chars.simps [simp del]

fun py_str :: "pyval \<Rightarrow> string" where
  "py_str (PyStr s) = s"
| "py_str (PyInt i) = (if i < 0 then CHR ''-'' # digit_chars (nat (- i)) else digit_chars (nat i))"
| "py_str (PyBool b) = (if b then ''True'' else ''False'')"
| "py_str PyNone = ''None''"

subsection \<open>Regular expressions as the \<open>re\<close> module matches them\<close>

text \<open>
  The constructors are the ones the pattern of \<open>IPv4.validate\<close> needs: the anchors
  \<open>^\<close> and \<open>$\<close>, a character range \<open>[lo-hi]\<close>, a literal character, sequencing and
  the bounded repetition \<open>r{m,n}\<close>.
\<close>

datatype regex =
    Bol
  | Eol
  | Range char char
  | Lit char
  | Seq regex regex
  | Rep nat nat regex

text \<open>
  A matcher state is the number of characters consumed and the rest of the subject. The
  matcher returns the states in which a match of the expression may end, in the order a
  backtracking engine tries them (a greedy repetition tries the highest count first).
  Without the MULTILINE flag \<open>^\<close> matches at the start of the subject only, and \<open>$\<close>
  matches at its end and also just before a newline that is its last character.
\<close>

type_synonym mstate = "nat \<times> string"

fun iter :: "(mstate \<Rightarrow> mstate list) \<Rightarrow> nat \<Rightarrow> mstate \<Rightarrow> mstate list" where
  "iter f 0 st = [st]"
| "iter f (Suc k) st = concat (map (iter f k) (f st))"

primrec rmatch :: "regex \<Rightarrow> mstate \<Rightarrow> mstate list" where
  "rmatch Bol st = (if fst st = 0 then [st] else [])"
| "rmatch Eol st = (if snd st = [] \<or> snd st = [CHR 0x0A] then [st] else [])"
| "rmatch (Range lo hi) st =
     (case snd st of
        [] \<Rightarrow> []
      | c # cs \<Rightarrow> if lo \<le> c \<and> c \<le> hi then [(Suc (fst st), cs)] else [])"
| "rmatch (Lit a) st =
     (case snd st of
        [] \<Rightarrow> []
      | c # cs \<Rightarrow> if c = a then [(Suc (fst st), cs)] else [])"
| "rmatch (Seq r1 r2) st = concat (map (rmatch r2) (rmatch r1 st))"
| "rmatch (Rep m n r) st = concat (map (\<lambda>k. iter (rmatch r) k st) (rev [m..<Suc n]))"

text \<open>\<open>pattern.match(s)\<close>: is there a match that starts at the first character?\<close>

definition re_match :: "regex \<Rightarrow> string \<Rightarrow> bool" where
  "re_match p s = (rmatch p (0, s) \<noteq> [])"

subsection \<open>\<open>IPv4.validate\<close>\<close>

text \<open>The pattern \<^verbatim>\<open>^(?:[0-9]{1,3}\.){3}[0-9]{1,3}$\<close>.\<close>

definition ipv4_pattern :: regex where
  "ipv4_pattern =
     Seq Bol
      (Seq (Rep 3 3 (Seq (Rep 1 3 (Range CHR ''0'' CHR ''9'')) (Lit CHR ''.'')))
        (Seq (Rep 1 3 (Range CHR ''0'' CHR ''9'')) Eol))"

fun is_str :: "pyval \<Rightarrow> bool" where
  "is_str (PyStr s) = True"
| "is_str v = False"

fun str_of :: "pyval \<Rightarrow> string" where
  "str_of (PyStr s) = s"
| "str_of v = []"

text \<open>
  \<open>validate\<close> raises when the value's type is not \<open>str\<close>, then when the pattern does
  not match; otherwise it returns \<open>None\<close>.
\<close>

definition validate :: "pyval \<Rightarrow> error + unit" where
  "validate v =
     (if \<not> is_str v then
        Inl (ValidationException (py_str v @ '' must be a string to be a valid ipv4 address''))
      else if \<not> re_match ipv4_pattern (str_of v) then
        Inl (ValidationException (py_str v @ '' is not a valid ipv4 address''))
      else Inr ())"

subsection \<open>Records, their class, and attribute access\<close>

text \<open>
  A record class such as \<open>Flow\<close> is given by the names its body binds to \<open>IPv4()\<close>
  descriptors; it defines nothing else. Names that begin and end with two underscores
  are reserved by the language for the object protocol (\<open>__init__\<close>,
  \<open>__getattr__\<close>, \<open>__slots__\<close>, ...) and are not field names, so the type of classes
  leaves them out. When the class is created, Python calls
  \<open>__set_name__(owner, name)\<close> on each descriptor, which fixes the descriptor's
  \<open>property_name\<close>.
\<close>

definition reserved_name :: "string \<Rightarrow> bool" where
  "reserved_name n = (take 2 n = ''__'' \<and> take 2 (rev n) = ''__'')"

typedef pyclass = "{ns :: string list. list_all (\<lambda>n. \<not> reserved_name n) ns}"
  by (rule exI [of _ "[]"]) simp

setup_lifting type_definition_pyclass

lift_definition field_names :: "pyclass \<Rightarrow> string list" is "\<lambda>ns. ns" .

record descriptor =
  property_name :: string

definition set_name :: "string \<Rightarrow> descriptor" where
  "set_name name = \<lparr>property_name = CHR ''_'' # name\<rparr>"

lift_definition Flow :: pyclass is "[''src_ipv4'', ''dst_ipv4'']"
  by (simp add: reserved_name_def)

text \<open>
  Three more record classes, written like \<open>Flow\<close>, in which the slot name of a field
  is taken: by another field (\<open>a\<close> and \<open>_a\<close>), or by an attribute that every object
  has (\<open>_doc__\<close> has the slot \<open>__doc__\<close>, \<open>_dict__\<close> has the slot \<open>__dict__\<close>).
\<close>

lift_definition Nested :: pyclass is "[''a'', ''_a'']"
  by (simp add: reserved_name_def)



text \<open>
  The state an access works on: the instance dictionary of the record \<open>obj\<close>, a list of
  entries in insertion order, and the records the log sink has received so far, oldest
  first. A record that was just created has an empty instance dictionary.
\<close>

record world =
  inst :: "(string \<times> pyval) list"
  logged :: "log_record list"

definition logging_info :: "string \<Rightarrow> pyobj list \<Rightarrow> world \<Rightarrow> world" where
  "logging_info m as w = w\<lparr>logged := logged w @ [Info m as]\<rparr>"

definition fresh :: world where
  "fresh = \<lparr>inst = [], logged = []\<rparr>"

text \<open>
  What an instance finds through its class besides the fields (CPython 3.9, the kernel
  of the notebook). The class statement gives the class \<open>__module__\<close>, \<open>__doc__\<close>
  (\<open>None\<close>, there is no docstring) and the descriptors \<open>__dict__\<close> and \<open>__weakref__\<close>;
  \<open>object\<close> gives \<open>__class__\<close> and its methods. \<open>__dict__\<close>, \<open>__class__\<close> and
  \<open>__weakref__\<close> are data descriptors: they are read and written through the class,
  whatever the instance dictionary holds, and writing a string to them raises. The other
  names are plain class attributes and methods: the instance dictionary is read first,
  and a write goes to the instance dictionary.
\<close>

datatype class_attr = InstanceDict | ReadOnly pyobj error | ClassValue pyobj

definition object_methods :: "string list" where
  "object_methods =
     [''__repr__'', ''__hash__'', ''__str__'', ''__getattribute__'', ''__setattr__'',
      ''__delattr__'', ''__lt__'', ''__le__'', ''__eq__'', ''__ne__'', ''__gt__'', ''__ge__'',
      ''__init__'', ''__new__'', ''__reduce_ex__'', ''__reduce__'', ''__subclasshook__'',
      ''__init_subclass__'', ''__format__'', ''__sizeof__'', ''__dir__'']"

definition inherited :: "string \<Rightarrow> class_attr option" where
  "inherited name =
     (if name = ''__dict__'' then Some InstanceDict
      else if name = ''__class__'' then Some (ReadOnly ClassObject (TypeError name))
      else if name = ''__weakref__'' then Some (ReadOnly (Val PyNone) (AttributeError name))
      else if name = ''__doc__'' then Some (ClassValue (Val PyNone))
      else if name = ''__module__'' then Some (ClassValue (Val (PyStr ''__main__'')))
      else if name \<in> set object_methods then Some (ClassValue (Method name))
      else None)"

text \<open>
  An access returns its outcome together with the state it leaves behind, also when it
  raises: what was stored or logged before the exception stays.

  \<open>getattr(obj, name)\<close> and \<open>setattr(obj, name, value)\<close> look the name up in the
  class first. A name the class binds to an \<open>IPv4\<close> descriptor goes through that
  descriptor's \<open>__get__\<close> or \<open>__set__\<close>, and so does an inherited data descriptor; any
  other name reads or writes the instance dictionary, a read falls back to the class
  attribute of that name, and reading a name found nowhere raises \<open>AttributeError\<close>.
  The hooks call \<open>getattr\<close> and \<open>setattr\<close> on \<open>property_name\<close>, so the four functions
  are mutually recursive; \<open>descr_get\<close> is \<open>PropertyWithValidator.__get__\<close> and
  \<open>descr_set\<close> is \<open>PropertyWithValidator.__set__\<close>.
\<close>

fun longest :: "string list \<Rightarrow> nat" where
  "longest [] = 0"
| "longest (x # xs) = max (length x) (longest xs)"

function getattr :: "pyclass \<Rightarrow> string \<Rightarrow> world \<Rightarrow> (error + pyobj) \<times> world"
  and descr_get :: "pyclass \<Rightarrow> descriptor \<Rightarrow> world \<Rightarrow> (error + pyobj) \<times> world" where
  "getattr cls name w =
     (if name \<in> set (field_names cls) then descr_get cls (set_name name) w
      else case inherited name of
             Some InstanceDict \<Rightarrow> (Inr (DictOf (inst w)), w)
           | Some (ReadOnly x e) \<Rightarrow> (Inr x, w)
           | Some (ClassValue x) \<Rightarrow>
               (case map_of (inst w) name of
                  None \<Rightarrow> (Inr x, w)
                | Some v \<Rightarrow> (Inr (Val v), w))
           | None \<Rightarrow>
               (case map_of (inst w) name of
                  None \<Rightarrow> (Inl (AttributeError name), w)
                | Some v \<Rightarrow> (Inr (Val v), w)))"
| "descr_get cls self w =
     (case getattr cls (property_name self) w of
        (Inl e, w') \<Rightarrow> (Inl e, w')
      | (Inr x, w') \<Rightarrow> (Inr x, logging_info ''__get__: %r'' [x] w'))"
  by pat_completeness auto
termination
  apply (relation "measure (\<lambda>x. case x of
         Inl (cls, name, w) \<Rightarrow> 2 * (longest (field_names cls) + 1 - length name)
       | Inr (cls, self, w) \<Rightarrow> 2 * (longest (field_names cls) + 1 - length (property_name self)) + 1)")
    apply simp
  subgoal premises p for cls name
  proof -
    have "name \<in> set ns \<Longrightarrow> length name \<le> longest ns" for ns
      by (induction ns) auto
    with p have "length name \<le> longest (field_names cls)"
      by blast
    then show ?thesis
      by (simp add: set_name_def)
  qed
  apply simp
  done

function setattr :: "pyclass \<Rightarrow> string \<Rightarrow> pyval \<Rightarrow> world \<Rightarrow> (error + unit) \<times> world"
  and descr_set :: "pyclass \<Rightarrow> descriptor \<Rightarrow> pyval \<Rightarrow> world \<Rightarrow> (error + unit) \<times> world" where
  "setattr cls name v w =
     (if name \<in> set (field_names cls) then descr_set cls (set_name name) v w
      else case inherited name of
             Some InstanceDict \<Rightarrow> (Inl (TypeError name), w)
           | Some (ReadOnly x e) \<Rightarrow> (Inl e, w)
           | Some (ClassValue x) \<Rightarrow> (Inr (), w\<lparr>inst := AList.update name v (inst w)\<rparr>)
           | None \<Rightarrow> (Inr (), w\<lparr>inst := AList.update name v (inst w)\<rparr>))"
| "descr_set cls self v w =
     (case validate v of
        Inl e \<Rightarrow> (Inl e, w)
      | Inr u \<Rightarrow> setattr cls (property_name self) v (logging_info ''__set__: %r'' [Val v] w))"
  by pat_completeness auto
termination
  apply (relation "measure (\<lambda>x. case x of
         Inl (cls, name, v, w) \<Rightarrow> 2 * (longest (field_names cls) + 1 - length name)
       | Inr (cls, self, v, w) \<Rightarrow> 2 * (longest (field_names cls) + 1 - length (property_name self)) + 1)")
    apply simp
  subgoal premises p for cls name
  proof -
    have "name \<in> set ns \<Longrightarrow> length name \<le> longest ns" for ns
      by (induction ns) auto
    with p have "length name \<le> longest (field_names cls)"
      by blast
    then show ?thesis
      by (simp add: set_name_def)
  qed
  apply simp
  done

declare getattr.simps [simp del] descr_get.simps [simp del]
declare setattr.simps [simp del] descr_set.simps [simp del]

text \<open>
  A caller's accesses to the validated fields of one record: \<open>r.f\<close> and \<open>r.f = v\<close>.
  An exception ends the access, not the caller; \<open>run\<close> gives the state after a
  sequence of accesses, each started in the state the previous one left.
\<close>

datatype access = Get string | Set string pyval

fun exec :: "pyclass \<Rightarrow> access \<Rightarrow> world \<Rightarrow> world" where
  "exec cls (Get f) w = snd (getattr cls f w)"
| "exec cls (Set f v) w = snd (setattr cls f v w)"

fun run :: "pyclass \<Rightarrow> access list \<Rightarrow> world \<Rightarrow> world" where
  "run cls [] w = w"
| "run cls (a # as) w = run cls as (exec cls a w)"







subsection \<open>The documented shape of an address\<close>

text \<open>
  Four dot-separated groups of one to three decimal digits, and nothing else:
  the subject is split at its dots (as \<open>s.split(".")\<close> does), there are exactly four
  groups, and each is one to three digits long.
\<close>

definition is_digit :: "char \<Rightarrow> bool" where
  "is_digit c = (CHR ''0'' \<le> c \<and> c \<le> CHR ''9'')"

definition octet_group :: "string \<Rightarrow> bool" where
  "octet_group g = (1 \<le> length g \<and> length g \<le> 3 \<and> list_all is_digit g)"

fun split_dots :: "string \<Rightarrow> string list" where
  "split_dots [] = [[]]"
| "split_dots (c # cs) =
     (if c = CHR ''.'' then [] # split_dots cs
      else (c # hd (split_dots cs)) # tl (split_dots cs))"

definition dotted_quad :: "string \<Rightarrow> bool" where
  "dotted_quad s = (length (split_dots s) = 4 \<and> list_all octet_group (split_dots s))"

text \<open>The inverse of \<open>split_dots\<close>: \<open>".".join(groups)\<close>.\<close>

fun join_dots :: "string list \<Rightarrow> string" where
  "join_dots [] = []"
| "join_dots [g] = g"
| "join_dots (g # h # gs) = g @ CHR ''.'' # join_dots (h # gs)"

text \<open>Names for the two sub-patterns of \<open>ipv4_pattern\<close>: a digit group and a dotted group.\<close>

abbreviation octet_re :: regex where
  "octet_re \<equiv> Rep 1 3 (Range CHR ''0'' CHR ''9'')"

abbreviation dotted_octet_re :: regex where
  "dotted_octet_re \<equiv> Seq octet_re (Lit CHR ''.'')"

section \<open>What the pattern matches\<close>


lemma rev_upt_1_4: "rev [1..<Suc 3] = [3, 2, 1]"
  by (simp add: upt_rec)

lemma rev_upt_3_4: "rev [3..<Suc 3] = [3]"
  by (simp add: upt_rec)

lemma rmatch_digit_Nil: "rmatch (Range CHR ''0'' CHR ''9'') (i, []) = []"
  by simp

lemma rmatch_digit_Cons:
  "rmatch (Range CHR ''0'' CHR ''9'') (i, c # cs) = (if is_digit c then [(Suc i, cs)] else [])"
  by (simp add: is_digit_def)


lemma set_iter_Suc: "set (iter f (Suc k) st) = (\<Union>st1 \<in> set (f st). set (iter f k st1))"
  by simp

lemma in_iter_digit:
  "st' \<in> set (iter (rmatch (Range CHR ''0'' CHR ''9'')) k (i, s)) \<longleftrightarrow>
     (\<exists>g. length g = k \<and> list_all is_digit g \<and> s = g @ snd st' \<and> fst st' = i + k)"
proof (induction k arbitrary: i s)
  case 0
  then show ?case by (cases st') auto
next
  case (Suc k)
  show ?case
  proof (cases s)
    case Nil
    then show ?thesis by simp
  next
    case (Cons c cs)
    show ?thesis
    proof (cases "is_digit c")
      case True
      have "st' \<in> set (iter (rmatch (Range CHR ''0'' CHR ''9'')) (Suc k) (i, s)) \<longleftrightarrow>
            st' \<in> set (iter (rmatch (Range CHR ''0'' CHR ''9'')) k (Suc i, cs))"
        using Cons True by (simp add: rmatch_digit_Cons del: rmatch.simps)
      also have "\<dots> \<longleftrightarrow> (\<exists>g. length g = k \<and> list_all is_digit g \<and> cs = g @ snd st' \<and> fst st' = Suc i + k)"
        by (rule Suc.IH)
      also have "\<dots> \<longleftrightarrow> (\<exists>g. length g = Suc k \<and> list_all is_digit g \<and> s = g @ snd st' \<and> fst st' = i + Suc k)"
      proof
        assume "\<exists>g. length g = k \<and> list_all is_digit g \<and> cs = g @ snd st' \<and> fst st' = Suc i + k"
        then obtain g where "length g = k" "list_all is_digit g" "cs = g @ snd st'" "fst st' = Suc i + k"
          by blast
        then have "length (c # g) = Suc k \<and> list_all is_digit (c # g) \<and> s = (c # g) @ snd st' \<and> fst st' = i + Suc k"
          using Cons True by simp
        then show "\<exists>g. length g = Suc k \<and> list_all is_digit g \<and> s = g @ snd st' \<and> fst st' = i + Suc k"
          by blast
      next
        assume "\<exists>g. length g = Suc k \<and> list_all is_digit g \<and> s = g @ snd st' \<and> fst st' = i + Suc k"
        then obtain g where g: "length g = Suc k" "list_all is_digit g" "s = g @ snd st'" "fst st' = i + Suc k"
          by blast
        then obtain x g' where "g = x # g'" by (cases g) auto
        with g Cons have "length g' = k \<and> list_all is_digit g' \<and> cs = g' @ snd st' \<and> fst st' = Suc i + k"
          by simp
        then show "\<exists>g. length g = k \<and> list_all is_digit g \<and> cs = g @ snd st' \<and> fst st' = Suc i + k"
          by blast
      qed
      finally show ?thesis .
    next
      case False
      have "\<not> (\<exists>g. length g = Suc k \<and> list_all is_digit g \<and> s = g @ snd st' \<and> fst st' = i + Suc k)"
      proof
        assume "\<exists>g. length g = Suc k \<and> list_all is_digit g \<and> s = g @ snd st' \<and> fst st' = i + Suc k"
        then obtain g where g: "length g = Suc k" "list_all is_digit g" "s = g @ snd st'"
          by blast
        then obtain x g' where "g = x # g'" by (cases g) auto
        with g Cons False show False by simp
      qed
      moreover have "st' \<notin> set (iter (rmatch (Range CHR ''0'' CHR ''9'')) (Suc k) (i, s))"
        using Cons False by (simp add: rmatch_digit_Cons del: rmatch.simps)
      ultimately show ?thesis by blast
    qed
  qed
qed

lemma in_rmatch_octet_st:
  "st' \<in> set (rmatch octet_re (i, s)) \<longleftrightarrow>
     (\<exists>g. octet_group g \<and> s = g @ snd st' \<and> fst st' = i + length g)"
proof -
  let ?dg = "rmatch (Range CHR ''0'' CHR ''9'')"
  let ?P = "\<lambda>k. \<exists>g. length g = k \<and> list_all is_digit g \<and> s = g @ snd st' \<and> fst st' = i + k"
  have "st' \<in> set (rmatch octet_re (i, s)) \<longleftrightarrow>
        (st' \<in> set (iter ?dg 1 (i, s)) \<or> st' \<in> set (iter ?dg 2 (i, s)) \<or> st' \<in> set (iter ?dg 3 (i, s)))"
  proof -
    have "rmatch octet_re (i, s) = iter ?dg 3 (i, s) @ iter ?dg 2 (i, s) @ iter ?dg 1 (i, s)"
      by (simp only: rmatch.simps rev_upt_1_4 list.map concat.simps append_Nil2)
    then show ?thesis by (auto simp del: iter.simps rmatch.simps)
  qed
  also have "\<dots> \<longleftrightarrow> (?P 1 \<or> ?P 2 \<or> ?P 3)"
    by (simp only: in_iter_digit)
  also have "\<dots> \<longleftrightarrow> (\<exists>g. octet_group g \<and> s = g @ snd st' \<and> fst st' = i + length g)"
  proof
    assume "?P 1 \<or> ?P 2 \<or> ?P 3"
    then obtain k g where "k = 1 \<or> k = 2 \<or> k = 3" "length g = k" "list_all is_digit g"
      "s = g @ snd st'" "fst st' = i + k"
      by blast
    then have "octet_group g \<and> s = g @ snd st' \<and> fst st' = i + length g"
      by (auto simp: octet_group_def)
    then show "\<exists>g. octet_group g \<and> s = g @ snd st' \<and> fst st' = i + length g" ..
  next
    assume "\<exists>g. octet_group g \<and> s = g @ snd st' \<and> fst st' = i + length g"
    then obtain g where g: "octet_group g" "s = g @ snd st'" "fst st' = i + length g"
      by blast
    from g(1) have "length g = 1 \<or> length g = 2 \<or> length g = 3" and "list_all is_digit g"
      by (auto simp: octet_group_def)
    with g(2,3) show "?P 1 \<or> ?P 2 \<or> ?P 3"
      by metis
  qed
  finally show ?thesis .
qed


lemma in_rmatch_octet:
  "(j, r) \<in> set (rmatch octet_re (i, s)) \<longleftrightarrow> (\<exists>g. octet_group g \<and> s = g @ r \<and> j = i + length g)"
  using in_rmatch_octet_st[of "(j, r)" i s] by simp

lemma in_rmatch_Lit:
  "(j, r) \<in> set (rmatch (Lit a) (i, s)) \<longleftrightarrow> (s = a # r \<and> j = Suc i)"
  by (auto split: list.splits)


lemma in_rmatch_dotted_octet:
  "(j, r) \<in> set (rmatch dotted_octet_re (i, s)) \<longleftrightarrow>
     (\<exists>g. octet_group g \<and> s = g @ CHR ''.'' # r \<and> j = Suc (i + length g))"
proof -
  have "(j, r) \<in> set (rmatch dotted_octet_re (i, s)) \<longleftrightarrow>
        (\<exists>j1 r1. (j1, r1) \<in> set (rmatch octet_re (i, s)) \<and> (j, r) \<in> set (rmatch (Lit CHR ''.'') (j1, r1)))"
    by (auto simp del: rmatch.simps(3,4,6) )
  also have "\<dots> \<longleftrightarrow> (\<exists>g. octet_group g \<and> s = g @ CHR ''.'' # r \<and> j = Suc (i + length g))"
    unfolding in_rmatch_octet in_rmatch_Lit by blast
  finally show ?thesis .
qed

lemma in_iter_3:
  "(j, r) \<in> set (iter f 3 (i, s)) \<longleftrightarrow>
     (\<exists>j1 r1 j2 r2. (j1, r1) \<in> set (f (i, s)) \<and> (j2, r2) \<in> set (f (j1, r1)) \<and>
        (j, r) \<in> set (f (j2, r2)))"
  by (auto simp add: numeral_3_eq_3)

lemma in_iter_dotted_octet_3:
  "(j, r) \<in> set (iter (rmatch dotted_octet_re) 3 (i, s)) \<longleftrightarrow>
     (\<exists>a b c. octet_group a \<and> octet_group b \<and> octet_group c \<and>
        s = a @ CHR ''.'' # b @ CHR ''.'' # c @ CHR ''.'' # r \<and>
        j = i + length a + length b + length c + 3)"
  (is "?L \<longleftrightarrow> ?R")
proof
  assume ?L
  then obtain j1 r1 j2 r2 where
    1: "(j1, r1) \<in> set (rmatch dotted_octet_re (i, s))" and
    2: "(j2, r2) \<in> set (rmatch dotted_octet_re (j1, r1))" and
    3: "(j, r) \<in> set (rmatch dotted_octet_re (j2, r2))"
    unfolding in_iter_3 by (elim exE conjE)
  from 1 obtain a where a: "octet_group a" "s = a @ CHR ''.'' # r1" "j1 = Suc (i + length a)"
    unfolding in_rmatch_dotted_octet by (elim exE conjE)
  from 2 obtain b where b: "octet_group b" "r1 = b @ CHR ''.'' # r2" "j2 = Suc (j1 + length b)"
    unfolding in_rmatch_dotted_octet by (elim exE conjE)
  from 3 obtain c where c: "octet_group c" "r2 = c @ CHR ''.'' # r" "j = Suc (j2 + length c)"
    unfolding in_rmatch_dotted_octet by (elim exE conjE)
  have "octet_group a \<and> octet_group b \<and> octet_group c \<and>
        s = a @ CHR ''.'' # b @ CHR ''.'' # c @ CHR ''.'' # r \<and>
        j = i + length a + length b + length c + 3"
    using a b c by simp
  then show ?R by (intro exI)
next
  assume ?R
  then obtain a b c where abc: "octet_group a" "octet_group b" "octet_group c"
    "s = a @ CHR ''.'' # b @ CHR ''.'' # c @ CHR ''.'' # r"
    "j = i + length a + length b + length c + 3"
    by (elim exE conjE)
  have 1: "(Suc (i + length a), b @ CHR ''.'' # c @ CHR ''.'' # r) \<in> set (rmatch dotted_octet_re (i, s))"
    unfolding in_rmatch_dotted_octet using abc(1,4) by (intro exI[of _ a]) simp
  have 2: "(Suc (Suc (i + length a) + length b), c @ CHR ''.'' # r)
        \<in> set (rmatch dotted_octet_re (Suc (i + length a), b @ CHR ''.'' # c @ CHR ''.'' # r))"
    unfolding in_rmatch_dotted_octet using abc(2) by (intro exI[of _ b]) simp
  have 3: "(j, r) \<in> set (rmatch dotted_octet_re (Suc (Suc (i + length a) + length b), c @ CHR ''.'' # r))"
    unfolding in_rmatch_dotted_octet using abc(3,5) by (intro exI[of _ c]) simp
  show ?L
    unfolding in_iter_3 using 1 2 3 by (intro exI conjI)
qed


lemma in_rmatch_Seq:
  "(j, r) \<in> set (rmatch (Seq p q) (i, s)) \<longleftrightarrow>
     (\<exists>j1 r1. (j1, r1) \<in> set (rmatch p (i, s)) \<and> (j, r) \<in> set (rmatch q (j1, r1)))"
  by auto

lemma in_rmatch_Bol: "(j, r) \<in> set (rmatch Bol (i, s)) \<longleftrightarrow> (i = 0 \<and> j = 0 \<and> r = s)"
  by auto

lemma in_rmatch_Eol:
  "(j, r) \<in> set (rmatch Eol (i, s)) \<longleftrightarrow> (j = i \<and> r = s \<and> (s = [] \<or> s = [CHR 0x0A]))"
  by auto

lemma rmatch_Rep_3_3: "rmatch (Rep 3 3 p) st = iter (rmatch p) 3 st"
  by (simp only: rmatch.simps rev_upt_3_4 list.map concat.simps append_Nil2)

lemma in_rmatch_ipv4:
  "(j, r) \<in> set (rmatch ipv4_pattern (0, s)) \<longleftrightarrow>
     (\<exists>a b c d. octet_group a \<and> octet_group b \<and> octet_group c \<and> octet_group d \<and>
        s = a @ CHR ''.'' # b @ CHR ''.'' # c @ CHR ''.'' # d @ r \<and>
        j = length a + length b + length c + length d + 3 \<and> (r = [] \<or> r = [CHR 0x0A]))"
  (is "?L \<longleftrightarrow> ?R")
proof
  assume ?L
  then obtain j0 r0 j1 r1 j2 r2 where
    0: "(j0, r0) \<in> set (rmatch Bol (0, s))" and
    1: "(j1, r1) \<in> set (iter (rmatch dotted_octet_re) 3 (j0, r0))" and
    2: "(j2, r2) \<in> set (rmatch octet_re (j1, r1))" and
    3: "(j, r) \<in> set (rmatch Eol (j2, r2))"
    unfolding ipv4_pattern_def in_rmatch_Seq rmatch_Rep_3_3 by (elim exE conjE)
  from 0 have s0: "j0 = 0" "r0 = s"
    unfolding in_rmatch_Bol by simp_all
  from 1 obtain a b c where abc: "octet_group a" "octet_group b" "octet_group c"
    "r0 = a @ CHR ''.'' # b @ CHR ''.'' # c @ CHR ''.'' # r1"
    "j1 = j0 + length a + length b + length c + 3"
    unfolding in_iter_dotted_octet_3 by (elim exE conjE)
  from 2 obtain d where d: "octet_group d" "r1 = d @ r2" "j2 = j1 + length d"
    unfolding in_rmatch_octet by (elim exE conjE)
  from 3 have e: "j = j2" "r = r2" "r2 = [] \<or> r2 = [CHR 0x0A]"
    unfolding in_rmatch_Eol by simp_all
  have "octet_group a \<and> octet_group b \<and> octet_group c \<and> octet_group d \<and>
        s = a @ CHR ''.'' # b @ CHR ''.'' # c @ CHR ''.'' # d @ r \<and>
        j = length a + length b + length c + length d + 3 \<and> (r = [] \<or> r = [CHR 0x0A])"
    using s0 abc d e by simp
  then show ?R by (intro exI)
next
  assume ?R
  then obtain a b c d where q: "octet_group a" "octet_group b" "octet_group c" "octet_group d"
    "s = a @ CHR ''.'' # b @ CHR ''.'' # c @ CHR ''.'' # d @ r"
    "j = length a + length b + length c + length d + 3" "r = [] \<or> r = [CHR 0x0A]"
    by (elim exE conjE)
  have 0: "(0, s) \<in> set (rmatch Bol (0, s))"
    unfolding in_rmatch_Bol by simp
  have 1: "(0 + length a + length b + length c + 3, d @ r) \<in> set (iter (rmatch dotted_octet_re) 3 (0, s))"
    unfolding in_iter_dotted_octet_3 using q(1,2,3,5) by (intro exI[of _ a] exI[of _ b] exI[of _ c]) simp
  have 2: "(j, r) \<in> set (rmatch octet_re (0 + length a + length b + length c + 3, d @ r))"
    unfolding in_rmatch_octet using q(4,6) by (intro exI[of _ d]) simp
  have 3: "(j, r) \<in> set (rmatch Eol (j, r))"
    unfolding in_rmatch_Eol using q(7) by simp
  show ?L
    unfolding ipv4_pattern_def in_rmatch_Seq rmatch_Rep_3_3 using 0 1 2 3 by (intro exI conjI)
qed

lemma re_match_ipv4_iff:
  "re_match ipv4_pattern s \<longleftrightarrow>
     (\<exists>a b c d. octet_group a \<and> octet_group b \<and> octet_group c \<and> octet_group d \<and>
        (s = a @ CHR ''.'' # b @ CHR ''.'' # c @ CHR ''.'' # d \<or>
         s = a @ CHR ''.'' # b @ CHR ''.'' # c @ CHR ''.'' # d @ [CHR 0x0A]))"
  (is "?L \<longleftrightarrow> ?R")
proof
  assume ?L
  then obtain j r where "(j, r) \<in> set (rmatch ipv4_pattern (0, s))"
    unfolding re_match_def by (cases "rmatch ipv4_pattern (0, s)") auto
  then obtain a b c d where "octet_group a" "octet_group b" "octet_group c" "octet_group d"
    "s = a @ CHR ''.'' # b @ CHR ''.'' # c @ CHR ''.'' # d @ r" "r = [] \<or> r = [CHR 0x0A]"
    unfolding in_rmatch_ipv4 by (elim exE conjE)
  then have "octet_group a \<and> octet_group b \<and> octet_group c \<and> octet_group d \<and>
        (s = a @ CHR ''.'' # b @ CHR ''.'' # c @ CHR ''.'' # d \<or>
         s = a @ CHR ''.'' # b @ CHR ''.'' # c @ CHR ''.'' # d @ [CHR 0x0A])"
    by auto
  then show ?R by (intro exI)
next
  assume ?R
  then obtain a b c d where o: "octet_group a" "octet_group b" "octet_group c" "octet_group d"
    and "s = a @ CHR ''.'' # b @ CHR ''.'' # c @ CHR ''.'' # d @ [] \<or>
         s = a @ CHR ''.'' # b @ CHR ''.'' # c @ CHR ''.'' # d @ [CHR 0x0A]"
    by (elim exE conjE) simp
  then obtain r where r: "s = a @ CHR ''.'' # b @ CHR ''.'' # c @ CHR ''.'' # d @ r"
    "r = [] \<or> r = [CHR 0x0A]"
    by blast
  note q = o r
  have "(length a + length b + length c + length d + 3, r) \<in> set (rmatch ipv4_pattern (0, s))"
    unfolding in_rmatch_ipv4 using q by (intro exI[of _ a] exI[of _ b] exI[of _ c] exI[of _ d]) simp
  then show ?L
    unfolding re_match_def by auto
qed

lemma split_dots_not_Nil: "split_dots s \<noteq> []"
  by (induction s) auto

lemma join_split_dots: "join_dots (split_dots s) = s"
proof (induction s)
  case Nil
  show ?case by simp
next
  case (Cons c cs)
  obtain g gs where sp: "split_dots cs = g # gs"
    using split_dots_not_Nil[of cs] by (cases "split_dots cs") auto
  show ?case
  proof (cases "c = CHR ''.''")
    case True
    with Cons sp show ?thesis by simp
  next
    case False
    with Cons sp show ?thesis by (cases gs) auto
  qed
qed

lemma split_dots_group: "CHR ''.'' \<notin> set a \<Longrightarrow> split_dots (a @ CHR ''.'' # r) = a # split_dots r"
  by (induction a) auto

lemma split_dots_last: "CHR ''.'' \<notin> set a \<Longrightarrow> split_dots a = [a]"
  by (induction a) auto

lemma is_digit_not_dot: "\<not> is_digit CHR ''.''"
  by (simp add: is_digit_def)

lemma is_digit_not_newline: "\<not> is_digit (CHR 0x0A)"
  by (simp add: is_digit_def)

lemma octet_group_no_dot: "octet_group g \<Longrightarrow> CHR ''.'' \<notin> set g"
  using is_digit_not_dot by (auto simp: octet_group_def list_all_iff)

lemma dotted_quad_iff:
  "dotted_quad s \<longleftrightarrow>
     (\<exists>a b c d. octet_group a \<and> octet_group b \<and> octet_group c \<and> octet_group d \<and>
        s = a @ CHR ''.'' # b @ CHR ''.'' # c @ CHR ''.'' # d)"
  (is "?L \<longleftrightarrow> ?R")
proof
  assume ?L
  then have len: "length (split_dots s) = 4" and all: "list_all octet_group (split_dots s)"
    by (simp_all add: dotted_quad_def)
  from len obtain a b c d where sp: "split_dots s = [a, b, c, d]"
    by (auto simp: length_Suc_conv numeral_eq_Suc)
  have "s = join_dots [a, b, c, d]"
    using join_split_dots[of s] sp by simp
  then have "octet_group a \<and> octet_group b \<and> octet_group c \<and> octet_group d \<and>
        s = a @ CHR ''.'' # b @ CHR ''.'' # c @ CHR ''.'' # d"
    using all sp by simp
  then show ?R by (intro exI)
next
  assume ?R
  then obtain a b c d where q: "octet_group a" "octet_group b" "octet_group c" "octet_group d"
    "s = a @ CHR ''.'' # b @ CHR ''.'' # c @ CHR ''.'' # d"
    by (elim exE conjE)
  have "split_dots s = [a, b, c, d]"
    using q by (simp add: split_dots_group split_dots_last octet_group_no_dot)
  with q show ?L
    by (simp add: dotted_quad_def)
qed

lemma dotted_quad_chars: "dotted_quad s \<Longrightarrow> list_all (\<lambda>c. is_digit c \<or> c = CHR ''.'') s"
  unfolding dotted_quad_iff by (auto simp: octet_group_def list_all_iff)

lemma dotted_quad_newline: "\<not> dotted_quad (t @ [CHR 0x0A])"
  using dotted_quad_chars[of "t @ [CHR 0x0A]"] is_digit_not_newline by auto

lemma re_match_ipv4_shape:
  "re_match ipv4_pattern s \<longleftrightarrow> dotted_quad s \<or> (\<exists>t. dotted_quad t \<and> s = t @ [CHR 0x0A])"
  (is "?L \<longleftrightarrow> ?R")
proof
  assume ?L
  then obtain a b c d where o: "octet_group a" "octet_group b" "octet_group c" "octet_group d"
    and s: "s = a @ CHR ''.'' # b @ CHR ''.'' # c @ CHR ''.'' # d \<or>
         s = a @ CHR ''.'' # b @ CHR ''.'' # c @ CHR ''.'' # d @ [CHR 0x0A]"
    unfolding re_match_ipv4_iff by (elim exE conjE)
  have dq: "dotted_quad (a @ CHR ''.'' # b @ CHR ''.'' # c @ CHR ''.'' # d)"
    unfolding dotted_quad_iff using o by blast
  from s show ?R
  proof
    assume "s = a @ CHR ''.'' # b @ CHR ''.'' # c @ CHR ''.'' # d"
    with dq show ?R by simp
  next
    assume "s = a @ CHR ''.'' # b @ CHR ''.'' # c @ CHR ''.'' # d @ [CHR 0x0A]"
    then have "s = (a @ CHR ''.'' # b @ CHR ''.'' # c @ CHR ''.'' # d) @ [CHR 0x0A]"
      by simp
    with dq show ?R by blast
  qed
next
  assume ?R
  then show ?L
  proof
    assume "dotted_quad s"
    then show ?L unfolding dotted_quad_iff re_match_ipv4_iff by blast
  next
    assume "\<exists>t. dotted_quad t \<and> s = t @ [CHR 0x0A]"
    then obtain t where "dotted_quad t" "s = t @ [CHR 0x0A]" by blast
    then obtain a b c d where "octet_group a" "octet_group b" "octet_group c" "octet_group d"
      "s = a @ CHR ''.'' # b @ CHR ''.'' # c @ CHR ''.'' # d @ [CHR 0x0A]"
      unfolding dotted_quad_iff by auto
    then show ?L unfolding re_match_ipv4_iff by blast
  qed
qed

section \<open>The validator\<close>

text \<open>
  Claim C2. Every string of the documented shape, four dot-separated groups of one to
  three decimal digits, is accepted by \<open>validate\<close>: it returns normally. The octets
  are not range-checked, so \<open>999.999.999.999\<close> is accepted too.
\<close>

theorem validate_accepts_dotted_quad:
  "dotted_quad s \<Longrightarrow> validate (PyStr s) = Inr ()"
  by (simp add: validate_def re_match_ipv4_shape)

theorem validate_accepts_dotted_quad_witness:
  "dotted_quad ''999.999.999.999'' \<and> validate (PyStr ''999.999.999.999'') = Inr ()"
proof -
  have h: "dotted_quad ''999.999.999.999''"
    by code_simp
  from h validate_accepts_dotted_quad [OF h] show ?thesis
    by (intro conjI)
qed

text \<open>
  Claim C3 says that \<open>validate\<close> raises for every string outside the documented
  shape. The string \<open>1.2.3.4\<close> followed by a newline is outside the shape, and
  \<open>validate\<close> returns normally on it.
\<close>

theorem validate_rejects_only_outside_shape_fails:
  "validate (PyStr [CHR ''1'', CHR ''.'', CHR ''2'', CHR ''.'', CHR ''3'', CHR ''.'', CHR ''4'', CHR 0x0A]) = Inr ()
   \<and> \<not> dotted_quad [CHR ''1'', CHR ''.'', CHR ''2'', CHR ''.'', CHR ''3'', CHR ''.'', CHR ''4'', CHR 0x0A]"
  by code_simp

text \<open>
  Claim C9. A string of the documented shape followed by one trailing newline is not of
  the documented shape, and \<open>validate\<close> returns normally on it: the end anchor also
  matches just before a final newline.
\<close>

theorem validate_accepts_trailing_newline:
  "dotted_quad t \<Longrightarrow>
     validate (PyStr (t @ [CHR 0x0A])) = Inr () \<and> \<not> dotted_quad (t @ [CHR 0x0A])"
  using re_match_ipv4_shape[of "t @ [CHR 0x0A]"] dotted_quad_newline[of t]
  by (simp add: validate_def)

theorem validate_accepts_trailing_newline_witness:
  "dotted_quad ''1.2.3.4'' \<and> validate (PyStr (''1.2.3.4'' @ [CHR 0x0A])) = Inr ()
     \<and> \<not> dotted_quad (''1.2.3.4'' @ [CHR 0x0A])"
proof -
  have h: "dotted_quad ''1.2.3.4''"
    by code_simp
  from h validate_accepts_trailing_newline [OF h] show ?thesis
    by (intro conjI) simp_all
qed

text \<open>
  Claim C6. Every \<open>ValidationException\<close> that \<open>validate\<close> raises carries a message
  that starts with the rendering of the rejected value and gives the reason: for a value
  that is not a string the message contains \<open>must be a string\<close>, and for a string of
  the wrong shape it ends with \<open>is not a valid ipv4 address\<close>.
\<close>

theorem validation_error_message:
  assumes "validate v = Inl e"
  shows "\<exists>m. e = ValidationException m \<and> prefix (py_str v) m \<and>
           (if is_str v then suffix '' is not a valid ipv4 address'' m
            else sublist ''must be a string'' m)"
proof (cases "is_str v")
  case True
  with assms have "e = ValidationException (py_str v @ '' is not a valid ipv4 address'')"
    by (simp add: validate_def split: if_splits)
  with True show ?thesis
    by (simp add: suffix_def)
next
  case False
  with assms have e: "e = ValidationException (py_str v @ '' must be a string to be a valid ipv4 address'')"
    by (simp add: validate_def)
  have "sublist ''must be a string''
          ((py_str v @ '' '') @ ''must be a string'' @ '' to be a valid ipv4 address'')"
    by (rule sublist_appendI)
  then have "sublist ''must be a string'' (py_str v @ '' must be a string to be a valid ipv4 address'')"
    by simp
  with False e show ?thesis
    by simp
qed

theorem validation_error_message_witness:
  "validate (PyInt 5555) = Inl (ValidationException ''5555 must be a string to be a valid ipv4 address'')
   \<and> (\<exists>m. ValidationException ''5555 must be a string to be a valid ipv4 address'' = ValidationException m
        \<and> prefix (py_str (PyInt 5555)) m \<and>
           (if is_str (PyInt 5555) then suffix '' is not a valid ipv4 address'' m
            else sublist ''must be a string'' m))"
proof -
  have h: "validate (PyInt 5555) = Inl (ValidationException ''5555 must be a string to be a valid ipv4 address'')"
    by code_simp
  from h validation_error_message [OF h] show ?thesis
    by (intro conjI)
qed

section \<open>The validated field\<close>

lemma validate_cases: "validate v = Inr () \<or> (\<exists>m. validate v = Inl (ValidationException m))"
  by (simp add: validate_def)

lemma map_of_update_same: "map_of (AList.update k v al) k = Some v"
  by (simp add: AList.update_conv')




lemma getattr_no_field_state:
  "name \<notin> set (field_names cls) \<Longrightarrow> snd (getattr cls name w) = w"
  by (simp add: getattr.simps split: option.splits class_attr.splits)

lemma setattr_no_field_log:
  "name \<notin> set (field_names cls) \<Longrightarrow> logged (snd (setattr cls name v w)) = logged w"
  by (simp add: setattr.simps split: option.splits class_attr.splits)



lemma set_then_get_general:
  "(\<forall>w'. setattr cls name v w = (Inr (), w') \<longrightarrow> fst (getattr cls name w') = Inr (Val v))"
  "(\<forall>w'. descr_set cls self v w = (Inr (), w') \<longrightarrow> fst (descr_get cls self w') = Inr (Val v))"
proof (induction cls name v w and cls self v w rule: setattr_descr_set.induct)
  case (1 cls name v w)
  show ?case
  proof (cases "name \<in> set (field_names cls)")
    case True
    with 1 show ?thesis
      by (simp add: setattr.simps getattr.simps)
  next
    case False
    then show ?thesis
      by (auto simp add: setattr.simps getattr.simps map_of_update_same
          split: option.splits class_attr.splits)
  qed
next
  case (2 cls self v w)
  show ?case
  proof (cases "validate v")
    case (Inl e)
    then show ?thesis by (simp add: descr_set.simps)
  next
    case (Inr u)
    show ?thesis
    proof (intro allI impI)
      fix w'
      assume "descr_set cls self v w = (Inr (), w')"
      with Inr have "setattr cls (property_name self) v (logging_info ''__set__: %r'' [Val v] w) = (Inr (), w')"
        by (simp add: descr_set.simps)
      with 2[OF Inr] have "fst (getattr cls (property_name self) w') = Inr (Val v)"
        by blast
      then show "fst (descr_get cls self w') = Inr (Val v)"
        by (cases "getattr cls (property_name self) w'") (simp add: descr_get.simps)
    qed
  qed
qed

text \<open>
  Claim C1. After a successful \<open>__set__\<close> of a value \<open>v\<close> on a record, a subsequent
  \<open>__get__\<close> through the same descriptor returns exactly \<open>v\<close>.
\<close>

theorem set_then_get:
  "descr_set cls self v w = (Inr (), w') \<Longrightarrow> fst (descr_get cls self w') = Inr (Val v)"
  using set_then_get_general(2) by blast

theorem set_then_get_witness:
  "descr_set Flow (set_name ''src_ipv4'') (PyStr ''2.2.2.2'') fresh =
     (Inr (), snd (descr_set Flow (set_name ''src_ipv4'') (PyStr ''2.2.2.2'') fresh)) \<and>
   fst (descr_get Flow (set_name ''src_ipv4'')
          (snd (descr_set Flow (set_name ''src_ipv4'') (PyStr ''2.2.2.2'') fresh))) = Inr (Val (PyStr ''2.2.2.2''))"
proof -
  have "fst (descr_set Flow (set_name ''src_ipv4'') (PyStr ''2.2.2.2'') fresh) = Inr ()"
    by code_simp
  then have h: "descr_set Flow (set_name ''src_ipv4'') (PyStr ''2.2.2.2'') fresh =
     (Inr (), snd (descr_set Flow (set_name ''src_ipv4'') (PyStr ''2.2.2.2'') fresh))"
    by (simp add: prod_eq_iff)
  from h set_then_get [OF h] show ?thesis
    by (intro conjI)
qed

text \<open>
  Claim C4. When the validator rejects the value, \<open>__set__\<close> propagates the
  \<open>ValidationException\<close> and leaves the record and the log as they were: nothing is
  stored, a previously stored value stays, and an unset field stays unset.
\<close>

theorem failed_set_stores_nothing:
  "validate v = Inl e \<Longrightarrow>
     descr_set cls self v w = (Inl e, w) \<and> (\<exists>m. e = ValidationException m) \<and>
     descr_get cls self (snd (descr_set cls self v w)) = descr_get cls self w"
  using validate_cases[of v] by (auto simp add: descr_set.simps)

theorem failed_set_stores_nothing_witness:
  "validate (PyStr ''5.5.5.'') = Inl (ValidationException ''5.5.5. is not a valid ipv4 address'') \<and>
   descr_set Flow (set_name ''dst_ipv4'') (PyStr ''5.5.5.'') fresh =
     (Inl (ValidationException ''5.5.5. is not a valid ipv4 address''), fresh)"
proof -
  have h: "validate (PyStr ''5.5.5.'') = Inl (ValidationException ''5.5.5. is not a valid ipv4 address'')"
    by code_simp
  from h failed_set_stores_nothing [OF h, of Flow "set_name ''dst_ipv4''" fresh] show ?thesis
    by blast
qed






text \<open>
  Claim C7, amended. For a descriptor whose slot is not itself a validated field (as in
  \<open>Flow\<close>): a \<open>__get__\<close> that returns a value emits exactly one record, the template
  \<open>__get__: %r\<close> with the returned value as its argument, and changes nothing else; a
  \<open>__get__\<close> that raises emits none; a successful \<open>__set__\<close> emits exactly one record,
  the template \<open>__set__: %r\<close> with the accepted value as its argument.
\<close>

theorem access_logs_once:
  assumes "property_name self \<notin> set (field_names cls)"
  shows "(descr_get cls self w = (Inr x, w') \<longrightarrow>
            logged w' = logged w @ [Info ''__get__: %r'' [x]] \<and> inst w' = inst w) \<and>
         (descr_get cls self w = (Inl e, w') \<longrightarrow> w' = w) \<and>
         (descr_set cls self v w = (Inr (), w') \<longrightarrow>
            logged w' = logged w @ [Info ''__set__: %r'' [Val v]])"
proof -
  have g: "snd (getattr cls (property_name self) w1) = w1" for w1
    using assms by (rule getattr_no_field_state)
  have 1: "logged w' = logged w @ [Info ''__get__: %r'' [x]] \<and> inst w' = inst w"
    if "descr_get cls self w = (Inr x, w')"
    using that g[of w]
    by (cases "getattr cls (property_name self) w")
       (auto simp add: descr_get.simps logging_info_def split: sum.splits)
  have 2: "w' = w" if "descr_get cls self w = (Inl e, w')"
    using that g[of w]
    by (cases "getattr cls (property_name self) w")
       (auto simp add: descr_get.simps split: sum.splits)
  have 3: "logged w' = logged w @ [Info ''__set__: %r'' [Val v]]"
    if "descr_set cls self v w = (Inr (), w')"
    using that setattr_no_field_log[OF assms, of v "logging_info ''__set__: %r'' [Val v] w"]
    by (cases "validate v") (auto simp add: descr_set.simps logging_info_def)
  from 1 2 3 show ?thesis
    by blast
qed

theorem access_logs_once_witness:
  "property_name (set_name ''src_ipv4'') \<notin> set (field_names Flow) \<and>
   fst (descr_set Flow (set_name ''src_ipv4'') (PyStr ''2.2.2.2'') fresh) = Inr () \<and>
   logged (snd (descr_set Flow (set_name ''src_ipv4'') (PyStr ''2.2.2.2'') fresh)) =
     logged fresh @ [Info ''__set__: %r'' [Val (PyStr ''2.2.2.2'')]] \<and>
   fst (descr_get Flow (set_name ''src_ipv4'')
     (snd (descr_set Flow (set_name ''src_ipv4'') (PyStr ''2.2.2.2'') fresh))) =
     Inr (Val (PyStr ''2.2.2.2'')) \<and>
   logged (snd (descr_get Flow (set_name ''src_ipv4'')
     (snd (descr_set Flow (set_name ''src_ipv4'') (PyStr ''2.2.2.2'') fresh)))) =
     logged (snd (descr_set Flow (set_name ''src_ipv4'') (PyStr ''2.2.2.2'') fresh))
       @ [Info ''__get__: %r'' [Val (PyStr ''2.2.2.2'')]]"
proof -
  let ?r = "descr_set Flow (set_name ''src_ipv4'') (PyStr ''2.2.2.2'') fresh"
  let ?g = "descr_get Flow (set_name ''src_ipv4'') (snd ?r)"
  have 1: "property_name (set_name ''src_ipv4'') \<notin> set (field_names Flow)"
    by code_simp
  have 2: "fst ?r = Inr ()"
    by code_simp
  then have 3: "?r = (Inr (), snd ?r)"
    by (simp add: prod_eq_iff)
  have 4: "fst ?g = Inr (Val (PyStr ''2.2.2.2''))"
    by code_simp
  then have 5: "?g = (Inr (Val (PyStr ''2.2.2.2'')), snd ?g)"
    by (simp add: prod_eq_iff)
  from 1 2 3 4 5
    access_logs_once [OF 1, where v = "PyStr ''2.2.2.2''" and w = fresh and w' = "snd ?r"]
    access_logs_once [OF 1, where x = "Val (PyStr ''2.2.2.2'')" and w = "snd ?r" and w' = "snd ?g"]
  show ?thesis
    by blast
qed

text \<open>
  Claim C7 as stated fails: a \<open>__get__\<close> on a fresh \<open>Flow\<close> record raises and emits no
  record, and on the class with the fields \<open>a\<close> and \<open>_a\<close> one successful write of
  \<open>a\<close> emits two records.
\<close>

theorem access_logs_once_counterexample:
  "fst (descr_get Flow (set_name ''src_ipv4'') fresh) = Inl (AttributeError ''_src_ipv4'') \<and>
   logged (snd (descr_get Flow (set_name ''src_ipv4'') fresh)) = [] \<and>
   fst (descr_set Nested (set_name ''a'') (PyStr ''2.2.2.2'') fresh) = Inr () \<and>
   logged (snd (descr_set Nested (set_name ''a'') (PyStr ''2.2.2.2'') fresh)) =
     [Info ''__set__: %r'' [Val (PyStr ''2.2.2.2'')], Info ''__set__: %r'' [Val (PyStr ''2.2.2.2'')]]"
  by code_simp

text \<open>
  Claim C8 says that a stored value always has the documented shape. Writing
  \<open>1.2.3.4\<close> followed by a newline to \<open>src_ipv4\<close> of a fresh \<open>Flow\<close> record stores it,
  and it is not of the documented shape.
\<close>

theorem stored_value_outside_shape:
  "map_of (inst (run Flow [Set ''src_ipv4'' (PyStr [CHR ''1'', CHR ''.'', CHR ''2'', CHR ''.'', CHR ''3'', CHR ''.'', CHR ''4'', CHR 0x0A])] fresh))
      ''_src_ipv4'' =
     Some (PyStr [CHR ''1'', CHR ''.'', CHR ''2'', CHR ''.'', CHR ''3'', CHR ''.'', CHR ''4'', CHR 0x0A]) \<and>
   \<not> dotted_quad [CHR ''1'', CHR ''.'', CHR ''2'', CHR ''.'', CHR ''3'', CHR ''.'', CHR ''4'', CHR 0x0A]"
  by code_simp




end
